theory Spec2Isabelle
  imports Complex_Main
begin

section \<open>Generalized rock-paper-scissors: the game logic of \<^verbatim>\<open>logic.py\<close>\<close>

text \<open>
  The theory follows \<^verbatim>\<open>src/logic.py\<close> class by class. Objects are records, the
  exceptions of the Python code are values of the type \<open>error\<close>, and a method that may
  raise returns \<open>error + result\<close> with \<open>Inl\<close> for the exception; one that may also
  never return (it waits for input, or loops) returns \<open>(error + result) option\<close>, with
  \<open>None\<close> for the call that never returns. A method is a function
  of its receiver that returns its value together with the receiver as the call leaves it,
  so that what a call changes and what it leaves alone can be stated. Python integers are
  unbounded and are modelled by \<open>int\<close>.
\<close>

subsection \<open>Exceptions\<close>

text \<open>
  \<open>AssertionError\<close> carries the message of the failed \<^verbatim>\<open>assert\<close>; it is the error the
  specification calls InvalidSelection. \<open>IndexError\<close> is a list subscript out of range
  (and \<^verbatim>\<open>random.choice\<close> on an empty list), \<open>ValueError\<close> is \<^verbatim>\<open>Result(v)\<close> for a value
  that no member of the enumeration has (and \<^verbatim>\<open>list.index\<close> of an absent element),
  \<open>KeyError\<close> a dictionary subscript with an absent key, \<open>EOFError\<close> is \<^verbatim>\<open>input\<close> at the
  end of the standard input, \<open>ZeroDivisionError\<close> and \<open>OverflowError\<close> are those of the
  division \<^verbatim>\<open>/\<close> of two integers.
\<close>

datatype error =
  AssertionError string | IndexError | ValueError | KeyError | EOFError
  | ZeroDivisionError | OverflowError

definition and_then :: "error + 'a \<Rightarrow> ('a \<Rightarrow> error + 'b) \<Rightarrow> error + 'b" where
  "and_then m f = (case m of Inl e \<Rightarrow> Inl e | Inr x \<Rightarrow> f x)"

text \<open>The same for a step that may never return: what follows it is then never reached.\<close>

definition after :: "(error + 'a) option \<Rightarrow> ('a \<Rightarrow> (error + 'b) option) \<Rightarrow> (error + 'b) option" where
  "after m f = (case m of None \<Rightarrow> None | Some (Inl e) \<Rightarrow> Some (Inl e) | Some (Inr x) \<Rightarrow> f x)"

subsection \<open>class Result(Enum)\<close>

datatype Result = WIN | TIE | LOSE

fun Result_value :: "Result \<Rightarrow> int" where
  "Result_value WIN = 1"
| "Result_value TIE = 0"
| "Result_value LOSE = - 1"

text \<open>\<^verbatim>\<open>Result(v)\<close>: the member whose value is \<open>v\<close>; \<^verbatim>\<open>ValueError\<close> when there is none.\<close>

definition Result_call :: "int \<Rightarrow> error + Result" where
  "Result_call v =
     (if v = Result_value WIN then Inr WIN
      else if v = Result_value TIE then Inr TIE
      else if v = Result_value LOSE then Inr LOSE
      else Inl ValueError)"

text \<open>\<^verbatim>\<open>__str__\<close>: the member's name in lower case.\<close>

fun Result_str :: "Result \<Rightarrow> string" where
  "Result_str WIN = ''win''"
| "Result_str TIE = ''tie''"
| "Result_str LOSE = ''lose''"

subsection \<open>Python lists\<close>

text \<open>\<^verbatim>\<open>xs[i]\<close> for an index that is not negative: \<^verbatim>\<open>IndexError\<close> out of range.\<close>

definition getitem :: "'a list \<Rightarrow> nat \<Rightarrow> error + 'a" where
  "getitem xs i = (if i < length xs then Inr (xs ! i) else Inl IndexError)"

text \<open>\<^verbatim>\<open>xs.index(x)\<close>: the first position that holds \<open>x\<close>; \<^verbatim>\<open>ValueError\<close> when absent.\<close>

fun index :: "'a list \<Rightarrow> 'a \<Rightarrow> error + nat" where
  "index [] x = Inl ValueError"
| "index (y # ys) x =
     (if y = x then Inr 0
      else case index ys x of Inl e \<Rightarrow> Inl e | Inr i \<Rightarrow> Inr (Suc i))"

subsection \<open>class SelectionSet\<close>

record SelectionSet =
  selections :: "string list"
  relations :: "int list list"

definition get_result ::
  "SelectionSet \<Rightarrow> string \<Rightarrow> string \<Rightarrow> error + ((Result \<times> Result) \<times> SelectionSet)" where
  "get_result self selection1 selection2 =
     (if selection1 \<notin> set (selections self)
        then Inl (AssertionError (selection1 @ '' is not a valid selection''))
      else if selection2 \<notin> set (selections self)
        then Inl (AssertionError (selection2 @ '' is not a valid selection''))
      else
        and_then (index (selections self) selection1) (\<lambda>index1.
        and_then (index (selections self) selection2) (\<lambda>index2.
        and_then (getitem (relations self) index1) (\<lambda>row1.
        and_then (getitem row1 index2) (\<lambda>v1.
        and_then (Result_call v1) (\<lambda>r1.
        and_then (getitem (relations self) index2) (\<lambda>row2.
        and_then (getitem row2 index1) (\<lambda>v2.
        and_then (Result_call v2) (\<lambda>r2.
        Inr ((r1, r2), self))))))))))"

subsection \<open>class Game\<close>

record Game =
  name :: string
  selection_set :: SelectionSet

subsection \<open>class Player and its subclasses\<close>

text \<open>
  A record of a player's history is the dictionary that \<^verbatim>\<open>observe\<close> builds; its four
  keys are fixed, so it is a record. The two subclasses differ in \<^verbatim>\<open>play\<close> and in
  \<^verbatim>\<open>__str__\<close> only and are told apart by \<open>kind\<close>; a player is one or the other, the
  abstract class itself is not instantiated. The fields \<^verbatim>\<open>name\<close> and \<^verbatim>\<open>history\<close>
  of a player are \<open>player_name\<close> and \<open>player_history\<close> here, the unprefixed names being
  those of Game and GameHandler.
\<close>

record observation =
  player_move :: string
  opponent_move :: string
  player_result :: Result
  opponent_result :: Result

datatype PlayerKind = HumanPlayer | ComputerPlayer

record Player =
  kind :: PlayerKind
  player_name :: string
  player_history :: "observation list"

definition Player_init :: "PlayerKind \<Rightarrow> string \<Rightarrow> Player" where
  "Player_init k n = \<lparr>kind = k, player_name = n, player_history = []\<rparr>"

text \<open>\<^verbatim>\<open>observe\<close> appends to the list and returns nothing; no statement of it can raise.\<close>

definition observe :: "Player \<Rightarrow> string \<Rightarrow> string \<Rightarrow> Result \<Rightarrow> Result \<Rightarrow> Player" where
  "observe self pm om pr or' =
     self\<lparr>player_history := player_history self @
       [\<lparr>player_move = pm, opponent_move = om, player_result = pr, opponent_result = or'\<rparr>]\<rparr>"

definition Player_str :: "Player \<Rightarrow> string" where
  "Player_str self =
     (case kind self of
        HumanPlayer \<Rightarrow> ''(human)'' @ player_name self
      | ComputerPlayer \<Rightarrow> ''(computer)'' @ player_name self)"

subsection \<open>The outside world: standard input, standard output, the random source\<close>

text \<open>
  The standard input is what each successive call of \<^verbatim>\<open>input\<close> meets: a line, the end
  of the input, or nothing at all, the call then waiting forever. \<open>stdin\<close> is this sequence,
  which may go on without end, and \<open>stdin_pos\<close> the number of lines read so far.
  \<open>stdout\<close> holds the texts written so far, \<open>rand\<close> is the sequence of numbers the
  generator will produce and \<open>rand_used\<close> how many of them have been drawn.
\<close>

datatype read = Line string | Eof | Blocks

record Env =
  stdin :: "nat \<Rightarrow> read"
  stdin_pos :: nat
  stdout :: "string list"
  rand :: "nat \<Rightarrow> nat"
  rand_used :: nat

definition newline :: string where
  "newline = [CHR 0x0A]"

definition print :: "Env \<Rightarrow> string \<Rightarrow> Env" where
  "print env s = env\<lparr>stdout := stdout env @ [s @ newline]\<rparr>"

text \<open>\<^verbatim>\<open>input(prompt)\<close> writes the prompt and reads one line.\<close>

definition input :: "Env \<Rightarrow> string \<Rightarrow> (error + (string \<times> Env)) option" where
  "input env prompt =
     (case stdin env (stdin_pos env) of
        Line answer \<Rightarrow>
          Some (Inr (answer, env\<lparr>stdin_pos := Suc (stdin_pos env),
                                    stdout := stdout env @ [prompt]\<rparr>))
      | Eof \<Rightarrow> Some (Inl EOFError)
      | Blocks \<Rightarrow> None)"

fun join :: "string \<Rightarrow> string list \<Rightarrow> string" where
  "join sep [] = []"
| "join sep [x] = x"
| "join sep (x # y # ys) = x @ sep @ join sep (y # ys)"

text \<open>\<^verbatim>\<open>random.choice(seq)\<close>: \<^verbatim>\<open>IndexError\<close> on an empty sequence.\<close>

definition random_choice :: "'a list \<Rightarrow> Env \<Rightarrow> error + ('a \<times> Env)" where
  "random_choice seq env =
     (if seq = [] then Inl IndexError
      else Inr (seq ! (rand env (rand_used env) mod length seq),
                env\<lparr>rand_used := Suc (rand_used env)\<rparr>))"

definition parse_move :: "string \<Rightarrow> string list \<Rightarrow> string option" where
  "parse_move answer sels = (if answer \<in> set sels then Some answer else None)"

text \<open>
  The \<^verbatim>\<open>while True\<close> of \<^verbatim>\<open>ask_move\<close>: each round asks and reads one line, and the loop
  is left only by a line that is a selection, or by the exception of \<^verbatim>\<open>input\<close>. Nothing
  bounds the number of rounds, so the loop is a partial function.
\<close>

partial_function (option) ask_move_loop ::
  "string \<Rightarrow> string list \<Rightarrow> Env \<Rightarrow> (error + (string \<times> Env)) option" where
  "ask_move_loop question_str sels env =
     (case input env question_str of
        None \<Rightarrow> None
      | Some (Inl e) \<Rightarrow> Some (Inl e)
      | Some (Inr (answer, env')) \<Rightarrow>
          (case parse_move answer sels of
             Some parsed_move \<Rightarrow> Some (Inr (parsed_move, env'))
           | None \<Rightarrow> ask_move_loop question_str sels env'))"

declare ask_move_loop.simps [code]

definition ask_move :: "Game \<Rightarrow> Env \<Rightarrow> (error + (string \<times> Env)) option" where
  "ask_move game env =
     (let sels = selections (selection_set game);
          selections_str = join '', '' sels;
          question_str = ''Your move? ['' @ selections_str @ '']:'' @ newline
      in ask_move_loop question_str sels env)"

definition play_uniformly_random :: "Game \<Rightarrow> Env \<Rightarrow> error + (string \<times> Env)" where
  "play_uniformly_random game env = random_choice (selections (selection_set game)) env"

definition Player_play :: "Player \<Rightarrow> Game \<Rightarrow> Env \<Rightarrow> (error + (string \<times> Env)) option" where
  "Player_play self game env =
     (case kind self of
        HumanPlayer \<Rightarrow> ask_move game env
      | ComputerPlayer \<Rightarrow> Some (play_uniformly_random game env))"

subsection \<open>The division of two integers\<close>

text \<open>
  \<^verbatim>\<open>a / b\<close> on two Python integers is a float: the double nearest to the quotient, a tie
  going to the double with the even significand. A double is modelled by the rational
  number it stands for. A double has a significand of 53 bits and a binary exponent that
  is at least -1074; a quotient at or above \<open>2^1024 - 2^970\<close> has no nearest double and
  raises \<^verbatim>\<open>OverflowError\<close>. The arguments here are counts, so they are not negative.
\<close>

function bit_length :: "nat \<Rightarrow> nat" where
  "bit_length n = (if n = 0 then 0 else Suc (bit_length (n div 2)))"
  by pat_completeness auto
termination
  by (relation "measure id") auto

definition pow2 :: "int \<Rightarrow> rat" where
  "pow2 k = (if 0 \<le> k then 2 ^ nat k else 1 / 2 ^ nat (- k))"

text \<open>For a positive \<open>q\<close>, the integer \<open>k\<close> with \<open>2^k \<le> q < 2^(k+1)\<close>.\<close>

definition ilog2 :: "rat \<Rightarrow> int" where
  "ilog2 q =
     (case quotient_of q of (a, b) \<Rightarrow>
        let k = int (bit_length (nat a)) - int (bit_length (nat b))
        in if pow2 k \<le> q then k else k - 1)"

definition round_half_even :: "rat \<Rightarrow> int" where
  "round_half_even x =
     (let f = \<lfloor>x\<rfloor>; d = x - of_int f
      in if d < 1 / 2 then f else if 1 / 2 < d then f + 1
         else if even f then f else f + 1)"

definition nearest_double :: "rat \<Rightarrow> rat" where
  "nearest_double q =
     (if q = 0 then 0
      else let e = max (ilog2 q - 52) (- 1074)
           in of_int (round_half_even (q / pow2 e)) * pow2 e)"

definition truediv :: "nat \<Rightarrow> nat \<Rightarrow> error + rat" where
  "truediv a b =
     (if b = 0 then Inl ZeroDivisionError
      else if 2 ^ 1024 - 2 ^ 970 \<le> (of_nat a / of_nat b :: rat) then Inl OverflowError
      else Inr (nearest_double (of_nat a / of_nat b)))"

subsection \<open>The weighted strategy\<close>

text \<open>
  The weights that \<^verbatim>\<open>play_weighted_random\<close> computes, one for each row of the matrix,
  before it hands them to \<^verbatim>\<open>random.choices\<close>. A weight is the integer 0 or a float; both
  are modelled by the rational number they stand for.
\<close>

definition row_weight :: "int list \<Rightarrow> error + rat" where
  "row_weight s_relation =
     (let lose_count = count_list s_relation (- 1);
          win_count = count_list s_relation 1;
          total_count = win_count + lose_count
      in if total_count = 0 then Inr 0 else truediv win_count total_count)"

fun weights_loop :: "int list list \<Rightarrow> rat list \<Rightarrow> error + rat list" where
  "weights_loop [] selections_weights = Inr selections_weights"
| "weights_loop (s_relation # rest) selections_weights =
     and_then (row_weight s_relation) (\<lambda>weight.
     weights_loop rest (selections_weights @ [weight]))"

definition selections_weights :: "Game \<Rightarrow> error + rat list" where
  "selections_weights game = weights_loop (relations (selection_set game)) []"

subsection \<open>class GameHandler\<close>

record turn =
  player1_move :: string
  player2_move :: string
  player1_result :: Result
  player2_result :: Result

record GameHandler =
  game :: Game
  player1 :: Player
  player2 :: Player
  history :: "turn list"

text \<open>
  The handler holds its two players by value here: \<open>player1\<close> and \<open>player2\<close> are taken to
  be two objects. (Were one object passed for both, it would observe every turn twice; the
  handler's own history, which the statements below are about, would be the same.)
\<close>

definition GameHandler_init :: "Game \<Rightarrow> Player \<Rightarrow> Player \<Rightarrow> GameHandler" where
  "GameHandler_init g p1 p2 = \<lparr>game = g, player1 = p1, player2 = p2, history = []\<rparr>"

definition add_turn_to_history ::
  "GameHandler \<Rightarrow> string \<Rightarrow> string \<Rightarrow> Result \<Rightarrow> Result \<Rightarrow> GameHandler" where
  "add_turn_to_history self m1 m2 r1 r2 =
     self\<lparr>history := history self @
       [\<lparr>player1_move = m1, player2_move = m2, player1_result = r1, player2_result = r2\<rparr>]\<rparr>"

type_synonym counts = "string \<rightharpoonup> (Result \<rightharpoonup> int)"

text \<open>\<^verbatim>\<open>{result: 0 for result in Result}\<close>\<close>

definition tmp_dct :: "Result \<rightharpoonup> int" where
  "tmp_dct = [WIN \<mapsto> 0, TIE \<mapsto> 0, LOSE \<mapsto> 0]"

text \<open>\<^verbatim>\<open>d[k]\<close>: \<^verbatim>\<open>KeyError\<close> when the key is absent.\<close>

definition lookup :: "('k \<rightharpoonup> 'v) \<Rightarrow> 'k \<Rightarrow> error + 'v" where
  "lookup d k = (case d k of None \<Rightarrow> Inl KeyError | Some v \<Rightarrow> Inr v)"

text \<open>\<^verbatim>\<open>d[p][r] += 1\<close>\<close>

definition increment :: "counts \<Rightarrow> string \<Rightarrow> Result \<Rightarrow> error + counts" where
  "increment d p r =
     and_then (lookup d p) (\<lambda>c.
     and_then (lookup c r) (\<lambda>n.
     Inr (d(p \<mapsto> c(r \<mapsto> n + 1)))))"

fun count_results :: "turn list \<Rightarrow> counts \<Rightarrow> error + counts" where
  "count_results [] d = Inr d"
| "count_results (turn_result # rest) d =
     and_then (increment d ''player1'' (player1_result turn_result)) (\<lambda>d1.
     and_then (increment d1 ''player2'' (player2_result turn_result)) (\<lambda>d2.
     count_results rest d2))"

definition get_current_result :: "GameHandler \<Rightarrow> error + (counts \<times> GameHandler)" where
  "get_current_result self =
     and_then (count_results (history self) [''player1'' \<mapsto> tmp_dct, ''player2'' \<mapsto> tmp_dct])
       (\<lambda>result_counts_by_player. Inr (result_counts_by_player, self))"

text \<open>\<^verbatim>\<open>str\<close> of an integer, in decimal.\<close>

function str_nat :: "nat \<Rightarrow> string" where
  "str_nat n =
     (if n < 10 then [''0123456789'' ! n]
      else str_nat (n div 10) @ [''0123456789'' ! (n mod 10)])"
  by pat_completeness auto
termination
  by (relation "measure id") auto

definition str_int :: "int \<Rightarrow> string" where
  "str_int i = (if i < 0 then ''-'' @ str_nat (nat (- i)) else str_nat (nat i))"

definition get_current_result_str :: "GameHandler \<Rightarrow> error + (string \<times> GameHandler)" where
  "get_current_result_str self =
     and_then (get_current_result self) (\<lambda>(result_counts_by_player, self1).
     and_then (lookup result_counts_by_player ''player1'') (\<lambda>c1.
     and_then (lookup c1 WIN) (\<lambda>p1_w.
     and_then (lookup c1 TIE) (\<lambda>p1_t.
     and_then (lookup c1 LOSE) (\<lambda>p1_l.
     and_then (lookup result_counts_by_player ''player2'') (\<lambda>c2.
     and_then (lookup c2 WIN) (\<lambda>p2_w.
     and_then (lookup c2 TIE) (\<lambda>p2_t.
     and_then (lookup c2 LOSE) (\<lambda>p2_l.
     Inr (Player_str (player1 self1) @ '' ('' @ str_int p1_w @ ''W, '' @ str_int p1_t @
            ''T, '' @ str_int p1_l @ ''L) vs '' @ Player_str (player2 self1) @ '' ('' @
            str_int p2_w @ ''W, '' @ str_int p2_t @ ''T, '' @ str_int p2_l @ ''L)'',
          self1))))))))))"

definition get_result_str ::
  "GameHandler \<Rightarrow> string \<Rightarrow> string \<Rightarrow> Result \<Rightarrow> Result \<Rightarrow> string" where
  "get_result_str self m1 m2 r1 r2 =
     (Player_str (player1 self) @ '' chooses '' @ m1 @ '' and '' @
        Player_str (player2 self) @ '' chooses '' @ m2 @ newline) @
     (Player_str (player1 self) @ '' '' @ Result_str r1 @ ''s and '' @
        Player_str (player2 self) @ '' '' @ Result_str r2 @ ''s'' @ newline)"

text \<open>
  A turn acts on the handler and on the outside world. An exception leaves
  \<^verbatim>\<open>play_turn\<close> and \<^verbatim>\<open>play\<close> and ends the program, so no state is kept with it. A turn
  in which a player never answers never returns.
\<close>

type_synonym state = "GameHandler \<times> Env"

definition play_turn :: "state \<Rightarrow> (error + state) option" where
  "play_turn st =
     (case st of (self, env) \<Rightarrow>
        after (Player_play (player1 self) (game self) env) (\<lambda>(m1, env1).
        after (Player_play (player2 self) (game self) env1) (\<lambda>(m2, env2).
        Some (
        and_then (get_result (selection_set (game self)) m1 m2) (\<lambda>((r1, r2), sset).
        let self1 = self\<lparr>game := (game self)\<lparr>selection_set := sset\<rparr>\<rparr>;
            self2 = self1\<lparr>player1 := observe (player1 self1) m1 m2 r1 r2\<rparr>;
            self3 = self2\<lparr>player2 := observe (player2 self2) m2 m1 r2 r1\<rparr>;
            env3 = print env2 (get_result_str self3 m1 m2 r1 r2);
            self4 = add_turn_to_history self3 m1 m2 r1 r2
        in and_then (get_current_result_str self4) (\<lambda>(s, self5).
           Inr (self5, print env3 s)))))))"

text \<open>
  The loop of \<^verbatim>\<open>play\<close>. It may run forever, so it is a partial function: the value
  \<open>None\<close> is a run that never ends, \<open>Some (Inl e)\<close> one that an exception ends and
  \<open>Some (Inr st)\<close> one that leaves the loop through \<^verbatim>\<open>break\<close>. The argument
  \<^verbatim>\<open>max_num_of_turns\<close> is an integer or Python's \<^verbatim>\<open>None\<close>, which no integer equals.
\<close>

partial_function (option) play_loop ::
  "int option \<Rightarrow> int \<Rightarrow> state \<Rightarrow> (error + state) option" where
  "play_loop max_num_of_turns i_turn st =
     (case play_turn st of
        None \<Rightarrow> None
      | Some (Inl e) \<Rightarrow> Some (Inl e)
      | Some (Inr st') \<Rightarrow>
          (let i_turn' = i_turn + 1
           in if Some i_turn' = max_num_of_turns then Some (Inr st')
              else play_loop max_num_of_turns i_turn' st'))"

declare play_loop.simps [code]

definition play :: "state \<Rightarrow> int option \<Rightarrow> (error + state) option" where
  "play st max_num_of_turns = play_loop max_num_of_turns 0 st"

subsection \<open>Words of the specification about a SelectionSet\<close>

text \<open>
  \<open>index_position xs x i\<close>: \<open>i\<close> is the index position of \<open>x\<close> in \<open>xs\<close>, the first one
  when \<open>x\<close> occurs more than once (the specification asks for unique names, and then
  there is only one).
\<close>

definition index_position :: "'a list \<Rightarrow> 'a \<Rightarrow> nat \<Rightarrow> bool" where
  "index_position xs x i \<longleftrightarrow>
     i < length xs \<and> xs ! i = x \<and> list_all (\<lambda>k. xs ! k \<noteq> x) [0..<i]"

text \<open>
  \<open>valid_entry rel i j\<close>: the matrix has an entry \<open>rel[i][j]\<close> and it is one of the
  integers \<open>1\<close>, \<open>0\<close>, \<open>-1\<close> that encode an outcome.
\<close>

definition valid_entry :: "int list list \<Rightarrow> nat \<Rightarrow> nat \<Rightarrow> bool" where
  "valid_entry rel i j \<longleftrightarrow>
     i < length rel \<and> j < length (rel ! i) \<and> rel ! i ! j \<in> {1, 0, - 1}"

text \<open>The outcome an integer of the matrix encodes: 1 is WIN, 0 is TIE, -1 is LOSE.\<close>

definition outcome :: "int \<Rightarrow> Result" where
  "outcome v = (if v = 1 then WIN else if v = 0 then TIE else LOSE)"

text \<open>
  The data model of a SelectionSet: a square matrix of the size of \<open>selections\<close> with
  entries in \<open>{-1, 0, 1}\<close>, and at least one selection, with unique names. The
  constructor checks none of it.
\<close>

definition valid_matrix :: "SelectionSet \<Rightarrow> bool" where
  "valid_matrix s \<longleftrightarrow>
     length (relations s) = length (selections s) \<and>
     list_all (\<lambda>row. length row = length (selections s) \<and>
                      list_all (\<lambda>v. v \<in> {1, 0, - 1}) row) (relations s)"

definition well_formed :: "SelectionSet \<Rightarrow> bool" where
  "well_formed s \<longleftrightarrow> selections s \<noteq> [] \<and> distinct (selections s) \<and> valid_matrix s"

text \<open>The diagonal encodes TIE: every selection has an entry against itself, and it is 0.\<close>

definition diagonal_ties :: "SelectionSet \<Rightarrow> bool" where
  "diagonal_ties s \<longleftrightarrow>
     list_all (\<lambda>i. i < length (relations s) \<and> i < length (relations s ! i) \<and>
                    relations s ! i ! i = 0) [0..<length (selections s)]"

text \<open>
  The expression \<^verbatim>\<open>Result(relations[i][j])\<close> as Python evaluates it: the row, then the
  entry, then the member of the enumeration, each of which may raise.
\<close>

definition Result_at :: "int list list \<Rightarrow> nat \<Rightarrow> nat \<Rightarrow> error + Result" where
  "Result_at rel i j = and_then (getitem rel i) (\<lambda>row. and_then (getitem row j) Result_call)"

text \<open>A SelectionSet that the constructor accepts although its only entry encodes no outcome.\<close>

definition malformed :: SelectionSet where
  "malformed = \<lparr>selections = [''a''], relations = [[2]]\<rparr>"

text \<open>The classic game of \<^verbatim>\<open>rock_paper_scissors.py\<close>.\<close>

definition rps :: SelectionSet where
  "rps = \<lparr>selections = [''rock'', ''paper'', ''scissors''],
          relations = [[0, - 1, 1], [1, 0, - 1], [- 1, 1, 0]]\<rparr>"

subsection \<open>Words of the specification about a match\<close>

text \<open>
  The sum of the three counts of one player's tally, when the tally has all three of
  them.
\<close>

definition tally_sum :: "(Result \<rightharpoonup> int) \<Rightarrow> int option" where
  "tally_sum c =
     (case (c WIN, c TIE, c LOSE) of
        (Some w, Some t, Some l) \<Rightarrow> Some (w + t + l)
      | _ \<Rightarrow> None)"

text \<open>
  \<open>play_turns n\<close>: \<open>n\<close> calls of \<^verbatim>\<open>play_turn\<close> one after the other, each on the state the
  one before has left; an exception in one of them ends the sequence, and a call that never
  returns is the last. \<open>Some (Inr st)\<close> is the state after \<open>n\<close> completed calls.
\<close>

fun play_turns :: "nat \<Rightarrow> state \<Rightarrow> (error + state) option" where
  "play_turns 0 st = Some (Inr st)"
| "play_turns (Suc n) st = after (play_turn st) (play_turns n)"

text \<open>
  The counts of the weighted strategy in the words of the specification: the entries of a
  row that are equal to 1, and those equal to -1.
\<close>

definition winCount :: "int list \<Rightarrow> nat" where
  "winCount row = length (filter (\<lambda>v. v = 1) row)"

definition loseCount :: "int list \<Rightarrow> nat" where
  "loseCount row = length (filter (\<lambda>v. v = - 1) row)"

text \<open>
  A match in which no turn can fail: both players are automated and the SelectionSet of
  the game meets the data model.
\<close>

definition computers_ready :: "state \<Rightarrow> bool" where
  "computers_ready st \<longleftrightarrow>
     kind (player1 (fst st)) = ComputerPlayer \<and> kind (player2 (fst st)) = ComputerPlayer \<and>
     well_formed (selection_set (game (fst st)))"

subsection \<open>Examples\<close>

definition rps_game :: Game where
  "rps_game = \<lparr>name = ''Rock Paper Scissors'', selection_set = rps\<rparr>"

text \<open>Two automated players at the start of a match.\<close>

definition two_computers :: state where
  "two_computers =
     (GameHandler_init rps_game (Player_init ComputerPlayer ''c1'') (Player_init ComputerPlayer ''c2''),
      \<lparr>stdin = (\<lambda>n. Eof), stdin_pos = 0, stdout = [], rand = (\<lambda>n. n), rand_used = 0\<rparr>)"

text \<open>
  Two players whose moves are read from a prepared standard input; the third line is not
  a selection and is asked for again.
\<close>

definition scripted_env :: Env where
  "scripted_env =
     \<lparr>stdin = (\<lambda>n. if n < 5
                    then Line ([''rock'', ''paper'', ''lizard'', ''scissors'', ''scissors''] ! n)
                    else Eof),
      stdin_pos = 0, stdout = [], rand = (\<lambda>n. 0), rand_used = 0\<rparr>"

definition scripted :: state where
  "scripted =
     (GameHandler_init rps_game (Player_init HumanPlayer ''ann'') (Player_init HumanPlayer ''bob''),
      scripted_env)"

text \<open>A human player against an automated one, and an input that stays silent.\<close>

definition silent :: state where
  "silent =
     (GameHandler_init rps_game (Player_init HumanPlayer ''ann'') (Player_init ComputerPlayer ''c''),
      \<lparr>stdin = (\<lambda>n. Blocks), stdin_pos = 0, stdout = [], rand = (\<lambda>n. 0), rand_used = 0\<rparr>)"

text \<open>The same two players, and an input every line of which is no selection.\<close>

definition endless_lizard :: state where
  "endless_lizard =
     (GameHandler_init rps_game (Player_init HumanPlayer ''ann'') (Player_init ComputerPlayer ''c''),
      \<lparr>stdin = (\<lambda>n. Line ''lizard''), stdin_pos = 0, stdout = [], rand = (\<lambda>n. 0),
        rand_used = 0\<rparr>)"

text \<open>
  A game whose first selection loses against every selection, and one whose rows have
  quotients that no double is equal to.
\<close>

definition always_loses :: Game where
  "always_loses = \<lparr>name = ''unfair'', selection_set =
     \<lparr>selections = [''a'', ''b''], relations = [[- 1, - 1], [1, 0]]\<rparr>\<rparr>"

definition thirds :: Game where
  "thirds = \<lparr>name = ''thirds'', selection_set =
     \<lparr>selections = [''a'', ''b'', ''c''],
      relations = [[1, - 1, - 1], [0, 0, 0], [1, 1, - 1]]\<rparr>\<rparr>"

section \<open>Properties of get_result\<close>

lemma index_position_iff:
  "index_position xs x i \<longleftrightarrow> i < length xs \<and> xs ! i = x \<and> (\<forall>k<i. xs ! k \<noteq> x)"
  by (auto simp: index_position_def list_all_iff)

lemma index_Inr_iff: "index xs x = Inr i \<longleftrightarrow> index_position xs x i"
proof (induction xs arbitrary: i)
  case Nil
  show ?case by (simp add: index_position_iff)
next
  case (Cons y ys)
  show ?case
  proof (cases i)
    case 0
    then show ?thesis
      by (auto simp: index_position_iff split: sum.splits)
  next
    case (Suc j)
    have "(\<forall>k<Suc j. (y # ys) ! k \<noteq> x) \<longleftrightarrow> y \<noteq> x \<and> (\<forall>k<j. ys ! k \<noteq> x)"
      by (simp add: All_less_Suc2)
    with Suc Cons.IH [of j] show ?thesis
      by (auto simp: index_position_iff split: sum.splits)
  qed
qed

lemma index_member: "x \<in> set xs \<Longrightarrow> \<exists>i. index xs x = Inr i"
  by (induction xs) auto

lemma Result_call_valid: "v \<in> {1, 0, - 1} \<Longrightarrow> Result_call v = Inr (outcome v)"
  by (auto simp: Result_call_def outcome_def)

lemma Result_call_Inr: "Result_call v = Inr r \<Longrightarrow> v = Result_value r"
  by (auto simp: Result_call_def split: if_splits)

lemma Result_at_valid:
  "valid_entry rel i j \<Longrightarrow> Result_at rel i j = Inr (outcome (rel ! i ! j))"
  by (simp add: valid_entry_def Result_at_def and_then_def getitem_def Result_call_valid)

lemma Result_at_value: "Result_at rel i j = Inr r \<Longrightarrow> Result_value r = rel ! i ! j"
  by (auto simp: Result_at_def and_then_def getitem_def dest: Result_call_Inr
      split: if_splits)

lemma get_result_at:
  assumes "index_position (selections s) a i" and "index_position (selections s) b j"
  shows "get_result s a b =
         and_then (Result_at (relations s) i j) (\<lambda>r1.
         and_then (Result_at (relations s) j i) (\<lambda>r2. Inr ((r1, r2), s)))"
proof -
  from assms have mem: "a \<in> set (selections s)" "b \<in> set (selections s)"
    by (auto simp: index_position_iff)
  from assms have idx: "index (selections s) a = Inr i" "index (selections s) b = Inr j"
    by (simp_all add: index_Inr_iff)
  show ?thesis
    by (simp add: get_result_def mem idx and_then_def Result_at_def split: sum.splits)
qed

lemma get_result_assert1:
  "a \<notin> set (selections s) \<Longrightarrow>
   get_result s a b = Inl (AssertionError (a @ '' is not a valid selection''))"
  by (simp add: get_result_def)

lemma get_result_assert2:
  "a \<in> set (selections s) \<Longrightarrow> b \<notin> set (selections s) \<Longrightarrow>
   get_result s a b = Inl (AssertionError (b @ '' is not a valid selection''))"
  by (simp add: get_result_def)

lemma Result_at_no_assert: "Result_at rel i j \<noteq> Inl (AssertionError msg)"
  by (simp add: Result_at_def and_then_def getitem_def Result_call_def split: sum.splits)

lemma get_result_members_no_assert:
  assumes "a \<in> set (selections s)" and "b \<in> set (selections s)"
  shows "get_result s a b \<noteq> Inl (AssertionError msg)"
proof -
  from assms obtain i j where "index (selections s) a = Inr i" "index (selections s) b = Inr j"
    using index_member by metis
  then have "index_position (selections s) a i" "index_position (selections s) b j"
    by (simp_all add: index_Inr_iff)
  from get_result_at [OF this] show ?thesis
    using Result_at_no_assert [of "relations s" i j] Result_at_no_assert [of "relations s" j i]
    by (auto simp: and_then_def split: sum.splits)
qed

lemma valid_matrix_valid_entry:
  assumes "valid_matrix s" and "i < length (selections s)" and "j < length (selections s)"
  shows "valid_entry (relations s) i j"
proof -
  from assms have i: "i < length (relations s)" by (simp add: valid_matrix_def)
  then have "relations s ! i \<in> set (relations s)" by simp
  with assms(1) have row: "length (relations s ! i) = length (selections s)"
    and vals: "\<forall>v\<in>set (relations s ! i). v \<in> {1, 0, - 1}"
    by (auto simp: valid_matrix_def list_all_iff)
  from row assms(3) have j: "j < length (relations s ! i)" by simp
  then have "relations s ! i ! j \<in> set (relations s ! i)" by simp
  with vals have "relations s ! i ! j \<in> {1, 0, - 1}" by blast
  with i j show ?thesis by (simp add: valid_entry_def)
qed

lemma get_result_valid:
  assumes "index_position (selections s) a i" and "index_position (selections s) b j"
    and "valid_entry (relations s) i j" and "valid_entry (relations s) j i"
  shows "get_result s a b =
         Inr ((outcome (relations s ! i ! j), outcome (relations s ! j ! i)), s)"
  by (simp add: get_result_at [OF assms(1,2)] Result_at_valid assms(3,4) and_then_def)

lemma get_result_valid_matrix:
  assumes "a \<in> set (selections s)" and "b \<in> set (selections s)" and "valid_matrix s"
  shows "\<exists>r. get_result s a b = Inr (r, s)"
proof -
  from assms(1,2) obtain i j where "index (selections s) a = Inr i"
    "index (selections s) b = Inr j"
    using index_member by metis
  then have p: "index_position (selections s) a i" "index_position (selections s) b j"
    by (simp_all add: index_Inr_iff)
  then have "i < length (selections s)" "j < length (selections s)"
    by (simp_all add: index_position_iff)
  with assms(3) have "valid_entry (relations s) i j" "valid_entry (relations s) j i"
    by (simp_all add: valid_matrix_valid_entry)
  from get_result_valid [OF p this] show ?thesis by blast
qed

text \<open>
  Claim C1. For every SelectionSet and every two selections that are members of
  \<open>selections\<close>, with \<open>i\<close> and \<open>j\<close> their index positions, \<open>get_result\<close> returns the
  pair \<^verbatim>\<open>(Result(relations[i][j]), Result(relations[j][i]))\<close> and leaves the SelectionSet
  as it was. The first conjunct is this equation for every SelectionSet, the two
  \<^verbatim>\<open>Result(...)\<close> evaluated as Python does, first the one, then the other. The second
  spells the result out where both entries exist and are one of 1, 0, -1: they are mapped
  by 1 to WIN, 0 to TIE, -1 to LOSE. The third says of every call that returns that the
  two outcomes are the members of the enumeration whose values are the two entries.
\<close>
theorem get_result_lookup:
  assumes "selection1 \<in> set (selections s)" and "selection2 \<in> set (selections s)"
    and "index_position (selections s) selection1 i"
    and "index_position (selections s) selection2 j"
  shows "get_result s selection1 selection2 =
           and_then (Result_at (relations s) i j) (\<lambda>r1.
           and_then (Result_at (relations s) j i) (\<lambda>r2. Inr ((r1, r2), s))) \<and>
         (valid_entry (relations s) i j \<and> valid_entry (relations s) j i \<longrightarrow>
            get_result s selection1 selection2 =
              Inr ((outcome (relations s ! i ! j), outcome (relations s ! j ! i)), s)) \<and>
         (\<forall>r1 r2 s'. get_result s selection1 selection2 = Inr ((r1, r2), s') \<longrightarrow>
            s' = s \<and> Result_value r1 = relations s ! i ! j \<and>
            Result_value r2 = relations s ! j ! i)"
proof (intro conjI allI impI)
  show eq: "get_result s selection1 selection2 =
      and_then (Result_at (relations s) i j) (\<lambda>r1.
      and_then (Result_at (relations s) j i) (\<lambda>r2. Inr ((r1, r2), s)))"
    by (rule get_result_at [OF assms(3,4)])
  {
    fix r1 r2 s'
    assume "get_result s selection1 selection2 = Inr ((r1, r2), s')"
    with eq have "Result_at (relations s) i j = Inr r1" "Result_at (relations s) j i = Inr r2"
      "s' = s"
      by (auto simp: and_then_def split: sum.splits)
    then show "s' = s" "Result_value r1 = relations s ! i ! j"
      "Result_value r2 = relations s ! j ! i"
      by (simp_all add: Result_at_value)
  }
next
  assume "valid_entry (relations s) i j \<and> valid_entry (relations s) j i"
  then show "get_result s selection1 selection2 =
      Inr ((outcome (relations s ! i ! j), outcome (relations s ! j ! i)), s)"
    using get_result_valid [OF assms(3,4)] by simp
qed

theorem get_result_lookup_witness:
  "''rock'' \<in> set (selections rps) \<and> ''scissors'' \<in> set (selections rps) \<and>
   index_position (selections rps) ''rock'' 0 \<and>
   index_position (selections rps) ''scissors'' 2 \<and>
   valid_entry (relations rps) 0 2 \<and> valid_entry (relations rps) 2 0 \<and>
   get_result rps ''rock'' ''scissors'' = Inr ((WIN, LOSE), rps)"
proof -
  have m: "''rock'' \<in> set (selections rps)" "''scissors'' \<in> set (selections rps)"
    by (simp_all add: rps_def)
  have p: "index_position (selections rps) ''rock'' 0"
    "index_position (selections rps) ''scissors'' 2"
    by (simp_all add: rps_def index_position_iff less_Suc_eq numeral_2_eq_2)
  have v: "valid_entry (relations rps) 0 2" "valid_entry (relations rps) 2 0"
    by (simp_all add: rps_def valid_entry_def)
  have o: "outcome (relations rps ! 0 ! 2) = WIN" "outcome (relations rps ! 2 ! 0) = LOSE"
    by (simp_all add: rps_def outcome_def)
  have "get_result rps ''rock'' ''scissors'' =
          Inr ((outcome (relations rps ! 0 ! 2), outcome (relations rps ! 2 ! 0)), rps)"
    using get_result_lookup [OF m p] v by blast
  with o m p v show ?thesis by simp
qed

text \<open>
  Claim C2. \<open>get_result\<close> fails with the assertion's error (InvalidSelection) exactly
  when an argument is not a member of \<open>selections\<close>, for every SelectionSet: if
  \<open>selection1\<close> is not a member the call fails, with the message that names
  \<open>selection1\<close>; if \<open>selection2\<close> is not a member the call fails, the message naming the
  first argument that is not a member, so each position is checked on its own; and if both
  are members the call does not fail so.
\<close>

theorem get_result_invalid_selection:
  "((\<exists>msg. get_result s selection1 selection2 = Inl (AssertionError msg)) \<longleftrightarrow>
      selection1 \<notin> set (selections s) \<or> selection2 \<notin> set (selections s)) \<and>
   (selection1 \<notin> set (selections s) \<longrightarrow>
      get_result s selection1 selection2 =
        Inl (AssertionError (selection1 @ '' is not a valid selection''))) \<and>
   (selection2 \<notin> set (selections s) \<longrightarrow>
      get_result s selection1 selection2 =
        Inl (AssertionError ((if selection1 \<in> set (selections s) then selection2
                              else selection1) @ '' is not a valid selection''))) \<and>
   (selection1 \<in> set (selections s) \<and> selection2 \<in> set (selections s) \<longrightarrow>
      (\<forall>msg. get_result s selection1 selection2 \<noteq> Inl (AssertionError msg)))"
proof (intro conjI impI allI)
  show "(\<exists>msg. get_result s selection1 selection2 = Inl (AssertionError msg)) \<longleftrightarrow>
      selection1 \<notin> set (selections s) \<or> selection2 \<notin> set (selections s)"
    using get_result_assert1 [of selection1 s selection2]
      get_result_assert2 [of selection1 s selection2]
      get_result_members_no_assert [of selection1 s selection2]
    by blast
next
  assume "selection1 \<notin> set (selections s)"
  then show "get_result s selection1 selection2 =
        Inl (AssertionError (selection1 @ '' is not a valid selection''))"
    by (rule get_result_assert1)
next
  assume "selection2 \<notin> set (selections s)"
  then show "get_result s selection1 selection2 =
        Inl (AssertionError ((if selection1 \<in> set (selections s) then selection2
                              else selection1) @ '' is not a valid selection''))"
    by (simp add: get_result_assert1 get_result_assert2)
next
  fix msg
  assume "selection1 \<in> set (selections s) \<and> selection2 \<in> set (selections s)"
  then show "get_result s selection1 selection2 \<noteq> Inl (AssertionError msg)"
    by (simp add: get_result_members_no_assert)
qed

lemma well_formed_rps: "well_formed rps"
  by (simp add: well_formed_def valid_matrix_def rps_def)

theorem get_result_invalid_selection_witness:
  "get_result rps ''lizard'' ''rock'' = Inl (AssertionError ''lizard is not a valid selection'') \<and>
   get_result rps ''rock'' ''spock'' = Inl (AssertionError ''spock is not a valid selection'') \<and>
   get_result rps ''lizard'' ''spock'' = Inl (AssertionError ''lizard is not a valid selection'') \<and>
   (\<forall>msg. get_result rps ''paper'' ''rock'' \<noteq> Inl (AssertionError msg)) \<and>
   (\<forall>msg. get_result malformed ''a'' ''a'' \<noteq> Inl (AssertionError msg))"
  using get_result_invalid_selection [of rps "''lizard''" "''rock''"]
    get_result_invalid_selection [of rps "''rock''" "''spock''"]
    get_result_invalid_selection [of rps "''lizard''" "''spock''"]
    get_result_invalid_selection [of rps "''paper''" "''rock''"]
    get_result_invalid_selection [of malformed "''a''" "''a''"]
  by (simp add: rps_def malformed_def)

text \<open>
  Other errors are another matter. The constructor checks nothing, so a matrix may
  lack an entry or hold one that is no outcome; a call with two members then raises the
  error of the lookup, which is not that of the assertion. On a matrix that meets the data
  model a call with two members returns (\<open>get_result_valid_matrix\<close>).
\<close>

lemma get_result_malformed: "get_result malformed ''a'' ''a'' = Inl ValueError"
  by (simp add: malformed_def get_result_def and_then_def getitem_def Result_call_def)

text \<open>
  Claim C3. If \<open>get_result(a, b)\<close> returns \<open>(r1, r2)\<close> then \<open>get_result(b, a)\<close> returns
  \<open>(r2, r1)\<close>: swapping the arguments swaps the two components. A call that returns had
  two members as arguments, and the SelectionSet is the same after it.
\<close>
theorem get_result_swap:
  assumes "get_result s a b = Inr ((r1, r2), s')"
  shows "a \<in> set (selections s) \<and> b \<in> set (selections s) \<and> s' = s \<and>
         get_result s b a = Inr ((r2, r1), s)"
proof -
  from assms have mem: "a \<in> set (selections s)" "b \<in> set (selections s)"
    by (auto simp: get_result_def split: if_splits)
  then obtain i j where "index (selections s) a = Inr i" "index (selections s) b = Inr j"
    using index_member by metis
  then have p: "index_position (selections s) a i" "index_position (selections s) b j"
    by (simp_all add: index_Inr_iff)
  from assms get_result_at [OF p]
  have r: "Result_at (relations s) i j = Inr r1" "Result_at (relations s) j i = Inr r2"
    and s: "s' = s"
    by (auto simp: and_then_def split: sum.splits)
  from get_result_at [OF p(2) p(1)] r have "get_result s b a = Inr ((r2, r1), s)"
    by (simp add: and_then_def)
  with mem s show ?thesis by simp
qed

theorem get_result_swap_witness:
  "get_result rps ''rock'' ''paper'' = Inr ((LOSE, WIN), rps) \<and>
   get_result rps ''paper'' ''rock'' = Inr ((WIN, LOSE), rps)"
proof -
  have "get_result rps ''rock'' ''paper'' = Inr ((LOSE, WIN), rps)"
    by (simp add: rps_def get_result_def and_then_def getitem_def Result_call_def)
  from this get_result_swap [OF this] show ?thesis by simp
qed

text \<open>
  Claim C4. In a SelectionSet whose diagonal entries \<open>relations[i][i]\<close> encode TIE,
  \<open>get_result(a, a)\<close> returns \<open>(TIE, TIE)\<close> for every member \<open>a\<close>.
\<close>
theorem get_result_self_ties:
  assumes "diagonal_ties s" and "a \<in> set (selections s)"
  shows "get_result s a a = Inr ((TIE, TIE), s)"
proof -
  from assms(2) obtain i where "index (selections s) a = Inr i"
    using index_member by metis
  then have p: "index_position (selections s) a i"
    by (simp add: index_Inr_iff)
  then have "i < length (selections s)" by (simp add: index_position_iff)
  with assms(1) have "valid_entry (relations s) i i" and "relations s ! i ! i = 0"
    by (simp_all add: diagonal_ties_def list_all_iff valid_entry_def)
  with get_result_valid [OF p p] show ?thesis
    by (simp add: outcome_def)
qed

theorem get_result_self_ties_witness:
  "diagonal_ties rps \<and> ''paper'' \<in> set (selections rps) \<and>
   get_result rps ''paper'' ''paper'' = Inr ((TIE, TIE), rps)"
proof -
  have d: "diagonal_ties rps"
    by (simp add: diagonal_ties_def rps_def upt_rec)
  have m: "''paper'' \<in> set (selections rps)" by (simp add: rps_def)
  from get_result_self_ties [OF d m] d m show ?thesis by simp
qed

section \<open>Properties of a match\<close>

lemma tally_sum_Some:
  "tally_sum c = Some n \<longleftrightarrow>
   (\<exists>w t l. c WIN = Some w \<and> c TIE = Some t \<and> c LOSE = Some l \<and> n = w + t + l)"
  by (auto simp: tally_sum_def split: option.splits)

lemma increment_tally:
  assumes "d p = Some c" and "tally_sum c = Some n"
  shows "\<exists>c'. increment d p r = Inr (d(p \<mapsto> c')) \<and> tally_sum c' = Some (n + 1)"
proof -
  from assms(2) obtain w t l where
    c: "c WIN = Some w" "c TIE = Some t" "c LOSE = Some l" and n: "n = w + t + l"
    by (auto simp: tally_sum_Some)
  obtain v where v: "c r = Some v" using c by (cases r) auto
  have "tally_sum (c(r \<mapsto> v + 1)) = Some (n + 1)"
    using c n v by (cases r) (simp_all add: tally_sum_def)
  moreover have "increment d p r = Inr (d(p \<mapsto> c(r \<mapsto> v + 1)))"
    using assms(1) v by (simp add: increment_def lookup_def and_then_def)
  ultimately show ?thesis by blast
qed

lemma count_results_tally:
  assumes "d ''player1'' = Some c1" and "tally_sum c1 = Some n1"
    and "d ''player2'' = Some c2" and "tally_sum c2 = Some n2"
  shows "\<exists>d' c1' c2'. count_results ts d = Inr d' \<and>
           d' ''player1'' = Some c1' \<and> tally_sum c1' = Some (n1 + int (length ts)) \<and>
           d' ''player2'' = Some c2' \<and> tally_sum c2' = Some (n2 + int (length ts))"
  using assms
proof (induction ts arbitrary: d c1 c2 n1 n2)
  case Nil
  then show ?case by simp
next
  case (Cons t ts)
  from increment_tally [of d "''player1''" c1 n1 "player1_result t"] Cons.prems(1,2)
  obtain c1' where s1: "increment d ''player1'' (player1_result t) = Inr (d(''player1'' \<mapsto> c1'))"
    and t1: "tally_sum c1' = Some (n1 + 1)" by blast
  let ?d1 = "d(''player1'' \<mapsto> c1')"
  have d1: "?d1 ''player2'' = Some c2" using Cons.prems(3) by simp
  from increment_tally [of ?d1 "''player2''" c2 n2 "player2_result t"] d1 Cons.prems(4)
  obtain c2' where s2: "increment ?d1 ''player2'' (player2_result t) = Inr (?d1(''player2'' \<mapsto> c2'))"
    and t2: "tally_sum c2' = Some (n2 + 1)" by blast
  let ?d2 = "?d1(''player2'' \<mapsto> c2')"
  have "?d2 ''player1'' = Some c1'" "?d2 ''player2'' = Some c2'" by simp_all
  from Cons.IH [of ?d2 c1' "n1 + 1" c2' "n2 + 1"] this t1 t2
  obtain d' c1'' c2'' where "count_results ts ?d2 = Inr d'"
    "d' ''player1'' = Some c1''" "tally_sum c1'' = Some (n1 + 1 + int (length ts))"
    "d' ''player2'' = Some c2''" "tally_sum c2'' = Some (n2 + 1 + int (length ts))"
    by blast
  with s1 s2 show ?case
    by (simp add: and_then_def add.commute add.left_commute)
qed

lemma tally_sum_tmp_dct: "tally_sum tmp_dct = Some 0"
  by (simp add: tally_sum_def tmp_dct_def)

lemma get_current_result_tally:
  "\<exists>m c1 c2. get_current_result h = Inr (m, h) \<and>
     m ''player1'' = Some c1 \<and> tally_sum c1 = Some (int (length (history h))) \<and>
     m ''player2'' = Some c2 \<and> tally_sum c2 = Some (int (length (history h)))"
proof -
  define d :: counts where "d = [''player1'' \<mapsto> tmp_dct, ''player2'' \<mapsto> tmp_dct]"
  have "d ''player1'' = Some tmp_dct" "d ''player2'' = Some tmp_dct"
    by (simp_all add: d_def)
  from count_results_tally [of d tmp_dct 0 tmp_dct 0 "history h"] this tally_sum_tmp_dct
  obtain d' c1 c2 where "count_results (history h) d = Inr d'"
    "d' ''player1'' = Some c1" "tally_sum c1 = Some (int (length (history h)))"
    "d' ''player2'' = Some c2" "tally_sum c2 = Some (int (length (history h)))"
    by auto
  then show ?thesis
    unfolding get_current_result_def d_def [symmetric] by (simp add: and_then_def)
qed

lemma get_current_result_frame: "get_current_result h = Inr (m, h') \<Longrightarrow> h' = h"
  by (auto simp: get_current_result_def and_then_def split: sum.splits)

lemma get_current_result_str_frame: "get_current_result_str h = Inr (s, h') \<Longrightarrow> h' = h"
  by (auto simp: get_current_result_str_def and_then_def dest: get_current_result_frame
      split: sum.splits prod.splits)

lemma get_current_result_str_total: "\<exists>s. get_current_result_str h = Inr (s, h)"
proof -
  from get_current_result_tally [of h] obtain m c1 c2 where
    "get_current_result h = Inr (m, h)" "m ''player1'' = Some c1" "m ''player2'' = Some c2"
    "tally_sum c1 = Some (int (length (history h)))"
    "tally_sum c2 = Some (int (length (history h)))" by blast
  then show ?thesis
    by (auto simp: get_current_result_str_def and_then_def lookup_def tally_sum_Some)
qed

lemma get_result_frame: "get_result s a b = Inr (rr, s') \<Longrightarrow> s' = s"
  by (auto simp: get_result_def and_then_def split: if_splits sum.splits)

lemma play_turn_history:
  assumes "play_turn (h, env) = Some (Inr (h', env'))"
  shows "\<exists>t. history h' = history h @ [t]" and "game h' = game h"
    and "kind (player1 h') = kind (player1 h)" and "kind (player2 h') = kind (player2 h)"
  using assms
  by (auto simp: play_turn_def after_def and_then_def Let_def add_turn_to_history_def
      observe_def dest!: get_current_result_str_frame get_result_frame
      split: option.splits sum.splits prod.splits)

lemma play_turns_history:
  "play_turns n (h, env) = Some (Inr (h', env')) \<Longrightarrow>
   length (history h') = length (history h) + n"
proof (induction n arbitrary: h env)
  case 0
  then show ?case by simp
next
  case (Suc n)
  from Suc.prems obtain h1 env1 where 1: "play_turn (h, env) = Some (Inr (h1, env1))"
    and 2: "play_turns n (h1, env1) = Some (Inr (h', env'))"
    by (auto simp: after_def split: option.splits sum.splits)
  from play_turn_history(1) [OF 1] have "length (history h1) = Suc (length (history h))"
    by auto
  with Suc.IH [OF 2] show ?case by simp
qed

text \<open>
  Claim C5. After exactly \<open>N\<close> completed calls of \<^verbatim>\<open>play_turn\<close> on a new handler, the
  handler's history has length \<open>N\<close>, and \<^verbatim>\<open>get_current_result\<close> returns tallies in which,
  for player1 and for player2, the counts of WIN, TIE and LOSE sum to \<open>N\<close>. As \<open>N\<close> is any
  number, this is every state a match can reach.
\<close>
theorem tallies_sum_to_turns:
  assumes "play_turns N (GameHandler_init g p1 p2, env) = Some (Inr (h, env'))"
  shows "length (history h) = N \<and>
         (\<exists>m c1 c2. get_current_result h = Inr (m, h) \<and>
            m ''player1'' = Some c1 \<and> tally_sum c1 = Some (int N) \<and>
            m ''player2'' = Some c2 \<and> tally_sum c2 = Some (int N))"
proof -
  from play_turns_history [OF assms] have "length (history h) = N"
    by (simp add: GameHandler_init_def)
  with get_current_result_tally [of h] show ?thesis by simp
qed

lemma scripted_two_turns:
  "(case play_turns 2 scripted of Some (Inr st) \<Rightarrow> True | _ \<Rightarrow> False)"
  by code_simp

theorem tallies_sum_to_turns_witness:
  "\<exists>h env'. play_turns 2 (GameHandler_init rps_game (Player_init HumanPlayer ''ann'')
               (Player_init HumanPlayer ''bob''), scripted_env) = Some (Inr (h, env')) \<and>
     length (history h) = 2 \<and>
     (\<exists>m c1 c2. get_current_result h = Inr (m, h) \<and>
        m ''player1'' = Some c1 \<and> tally_sum c1 = Some 2 \<and>
        m ''player2'' = Some c2 \<and> tally_sum c2 = Some 2)"
proof -
  from scripted_two_turns obtain h env' where
    e: "play_turns 2 (GameHandler_init rps_game (Player_init HumanPlayer ''ann'')
          (Player_init HumanPlayer ''bob''), scripted_env) = Some (Inr (h, env'))"
    unfolding scripted_def by (auto split: option.splits sum.splits)
  from tallies_sum_to_turns [OF e] e show ?thesis by simp
qed

lemma random_choice_member:
  "seq \<noteq> [] \<Longrightarrow> \<exists>x env'. random_choice seq env = Inr (x, env') \<and> x \<in> set seq"
  by (simp add: random_choice_def)

lemma play_turn_computers:
  assumes "computers_ready st"
  shows "\<exists>st'. play_turn st = Some (Inr st') \<and> computers_ready st'"
proof -
  obtain h env where st: "st = (h, env)" by (cases st)
  let ?s = "selection_set (game h)"
  from assms st have k: "kind (player1 h) = ComputerPlayer" "kind (player2 h) = ComputerPlayer"
    and wf: "well_formed ?s" by (simp_all add: computers_ready_def)
  from wf have ne: "selections ?s \<noteq> []" by (simp add: well_formed_def)
  from random_choice_member [OF ne, of env] obtain m1 env1 where
    1: "random_choice (selections ?s) env = Inr (m1, env1)" and m1: "m1 \<in> set (selections ?s)"
    by blast
  from random_choice_member [OF ne, of env1] obtain m2 env2 where
    2: "random_choice (selections ?s) env1 = Inr (m2, env2)" and m2: "m2 \<in> set (selections ?s)"
    by blast
  from wf have "valid_matrix ?s" by (simp add: well_formed_def)
  from get_result_valid_matrix [OF m1 m2 this] obtain r1 r2 where
    3: "get_result ?s m1 m2 = Inr ((r1, r2), ?s)" by auto
  define h4 where "h4 = add_turn_to_history
     (h\<lparr>player1 := observe (player1 h) m1 m2 r1 r2,
        player2 := observe (player2 h) m2 m1 r2 r1\<rparr>) m1 m2 r1 r2"
  from get_current_result_str_total [of h4] obtain s where
    4: "get_current_result_str h4 = Inr (s, h4)" by blast
  have "play_turn st = Some (Inr (h4, print (print env2 (get_result_str
      (h\<lparr>player1 := observe (player1 h) m1 m2 r1 r2,
         player2 := observe (player2 h) m2 m1 r2 r1\<rparr>) m1 m2 r1 r2)) s))"
    using 1 2 3 4 k
    by (simp add: st play_turn_def Player_play_def play_uniformly_random_def after_def
        and_then_def Let_def h4_def)
  moreover have "kind (player1 h4) = ComputerPlayer" "kind (player2 h4) = ComputerPlayer"
    "game h4 = game h"
    using k by (simp_all add: h4_def add_turn_to_history_def observe_def)
  ultimately show ?thesis using wf by (simp add: computers_ready_def)
qed

lemma play_turns_computers:
  "computers_ready st \<Longrightarrow> \<exists>st'. play_turns n st = Some (Inr st') \<and> computers_ready st'"
proof (induction n arbitrary: st)
  case 0
  then show ?case by simp
next
  case (Suc n)
  from play_turn_computers [OF Suc.prems] obtain st1 where
    "play_turn st = Some (Inr st1)" "computers_ready st1" by blast
  with Suc.IH [of st1] show ?case by (simp add: after_def)
qed

lemma play_loop_bounded:
  "0 < k \<Longrightarrow> play_loop (Some (i + int k)) i st = play_turns k st"
proof (induction k arbitrary: i st)
  case 0
  then show ?case by simp
next
  case (Suc k)
  show ?case
  proof (cases "play_turn st")
    case None
    then show ?thesis
      by (subst play_loop.simps) (simp add: after_def)
  next
    case (Some r)
    show ?thesis
    proof (cases r)
      case (Inl e)
      with Some show ?thesis
        by (subst play_loop.simps) (simp add: after_def)
    next
      case (Inr st')
      show ?thesis
      proof (cases "k = 0")
        case True
        with Some Inr show ?thesis
          by (subst play_loop.simps) (simp add: after_def)
      next
        case False
        then have "play_loop (Some (i + 1 + int k)) (i + 1) st' = play_turns k st'"
          using Suc.IH [of "i + 1" st'] by simp
        moreover have "i + 1 + int k = i + int (Suc k)" by simp
        ultimately show ?thesis using Some Inr False
          by (subst play_loop.simps) (simp add: after_def Let_def)
      qed
    qed
  qed
qed

lemma play_loop_no_break:
  assumes run: "play_loop mx i st = Some r"
    and never: "mx = None \<or> (\<exists>m. mx = Some m \<and> m \<le> i)"
  shows "\<exists>e. r = Inl e"
proof -
  have "(mx = None \<or> (\<exists>m. mx = Some m \<and> m \<le> i)) \<longrightarrow> (\<exists>e. r = Inl e)"
  proof (rule play_loop.raw_induct
      [where P = "\<lambda>mx i st r. (mx = None \<or> (\<exists>m. mx = Some m \<and> m \<le> i)) \<longrightarrow> (\<exists>e. r = Inl e)",
        OF _ run], goal_cases)
    case (1 f mx i st r)
    show ?case
    proof
      assume c: "mx = None \<or> (\<exists>m. mx = Some m \<and> m \<le> i)"
      from 1(2) obtain t where t: "play_turn st = Some t"
        by (cases "play_turn st") auto
      show "\<exists>e. r = Inl e"
      proof (cases t)
        case (Inl e)
        with 1(2) t show ?thesis by auto
      next
        case (Inr st')
        from c have ne: "Some (i + 1) \<noteq> mx" by auto
        with 1(2) t Inr have "f mx (i + 1) st' = Some r" by (simp add: Let_def)
        moreover from c have "mx = None \<or> (\<exists>m. mx = Some m \<and> m \<le> i + 1)" by auto
        ultimately show ?thesis using 1(1) by blast
      qed
    qed
  qed
  with never show ?thesis by simp
qed

lemma play_loop_computers:
  assumes run: "play_loop mx i st = Some r" and ready: "computers_ready st"
  shows "\<exists>st'. r = Inr st'"
proof -
  have "computers_ready st \<longrightarrow> (\<exists>st'. r = Inr st')"
  proof (rule play_loop.raw_induct
      [where P = "\<lambda>mx i st r. computers_ready st \<longrightarrow> (\<exists>st'. r = Inr st')", OF _ run],
      goal_cases)
    case (1 f mx i st r)
    show ?case
    proof
      assume "computers_ready st"
      from play_turn_computers [OF this] obtain st' where
        st': "play_turn st = Some (Inr st')" and ready': "computers_ready st'" by blast
      show "\<exists>st'. r = Inr st'"
      proof (cases "Some (i + 1) = mx")
        case True
        with 1(2) st' show ?thesis by (auto simp: Let_def)
      next
        case False
        with 1(2) st' have "f mx (i + 1) st' = Some r" by (simp add: Let_def)
        with ready' show ?thesis using 1(1) by blast
      qed
    qed
  qed
  with ready show ?thesis by simp
qed

lemma play_loop_diverges:
  assumes "computers_ready st" and "mx = None \<or> (\<exists>m. mx = Some m \<and> m \<le> i)"
  shows "play_loop mx i st = None"
proof (cases "play_loop mx i st")
  case None
  then show ?thesis .
next
  case (Some r)
  from play_loop_no_break [OF Some assms(2)] play_loop_computers [OF Some assms(1)]
  show ?thesis by auto
qed

lemma computers_ready_two_computers: "computers_ready two_computers"
  by (simp add: computers_ready_def two_computers_def GameHandler_init_def Player_init_def
      rps_game_def well_formed_rps)

lemma ask_move_loop_blocks:
  "stdin env (stdin_pos env) = Blocks \<Longrightarrow> ask_move_loop q sels env = None"
  by (subst ask_move_loop.simps) (simp add: input_def)

lemma ask_move_loop_endless:
  assumes "\<forall>k\<ge>stdin_pos env. \<exists>a. stdin env k = Line a \<and> a \<notin> set sels"
  shows "ask_move_loop q sels env = None"
proof (cases "ask_move_loop q sels env")
  case None
  then show ?thesis .
next
  case (Some r)
  have "(\<forall>k\<ge>stdin_pos env. \<exists>a. stdin env k = Line a \<and> a \<notin> set sels) \<longrightarrow> False"
  proof (rule ask_move_loop.raw_induct
      [where P = "\<lambda>q sels env r.
         (\<forall>k\<ge>stdin_pos env. \<exists>a. stdin env k = Line a \<and> a \<notin> set sels) \<longrightarrow> False",
        OF _ Some], goal_cases)
    case (1 f q sels env r)
    show ?case
    proof
      assume all: "\<forall>k\<ge>stdin_pos env. \<exists>a. stdin env k = Line a \<and> a \<notin> set sels"
      then obtain a where a: "stdin env (stdin_pos env) = Line a" "a \<notin> set sels"
        by blast
      let ?env = "env\<lparr>stdin_pos := Suc (stdin_pos env), stdout := stdout env @ [q]\<rparr>"
      from 1(2) a have "f q sels ?env = Some r"
        by (simp add: input_def parse_move_def)
      moreover from all have
        "\<forall>k\<ge>stdin_pos ?env. \<exists>a. stdin ?env k = Line a \<and> a \<notin> set sels"
        by simp
      ultimately show False using 1(1) by blast
    qed
  qed
  with assms show ?thesis by simp
qed

lemma play_turn_silent: "play_turn silent = None"
  by (simp add: play_turn_def silent_def GameHandler_init_def Player_init_def Player_play_def
      ask_move_def ask_move_loop_blocks after_def)

lemma play_turn_endless_lizard: "play_turn endless_lizard = None"
proof -
  have "ask_move_loop q (selections rps) (snd endless_lizard) = None" for q
    by (rule ask_move_loop_endless) (simp add: endless_lizard_def rps_def)
  then show ?thesis
    by (simp add: play_turn_def endless_lizard_def GameHandler_init_def Player_init_def
        Player_play_def ask_move_def after_def rps_game_def)
qed

lemma play_loop_stuck: "play_turn st = None \<Longrightarrow> play_loop mx i st = None"
  by (subst play_loop.simps) simp

text \<open>
  Claim C6, as amended. For every integer \<^verbatim>\<open>max_num_of_turns\<close> that is at least 1,
  \<^verbatim>\<open>play\<close> calls \<^verbatim>\<open>play_turn\<close> until its counter equals that number and then ends,
  having called \<^verbatim>\<open>play_turn\<close> exactly that many times, provided each of these calls
  returns. The outcome of \<^verbatim>\<open>play\<close> is that of that many calls of \<^verbatim>\<open>play_turn\<close> one after
  the other: an exception in one of them ends the run there, and a call that never
  returns (a human player's input stays silent, or never is a selection) is a run that
  never ends. When \<^verbatim>\<open>play\<close> returns, the handler's history has grown by that many turns.
  Between two automated players on a SelectionSet that meets the data model every call
  returns, and so does \<^verbatim>\<open>play\<close>. Without a number of turns (\<^verbatim>\<open>None\<close>) the loop is
  never left: the run has no end, or an exception ends it.
\<close>
theorem play_bounded:
  "(0 < m \<longrightarrow>
      play st (Some m) = play_turns (nat m) st \<and>
      (\<forall>h env. play st (Some m) = Some (Inr (h, env)) \<longrightarrow>
         length (history h) = length (history (fst st)) + nat m) \<and>
      (computers_ready st \<longrightarrow> (\<exists>st'. play st (Some m) = Some (Inr st')))) \<and>
   (\<forall>st'. play st None \<noteq> Some (Inr st'))"
proof (intro conjI impI allI)
  assume "0 < m"
  then show eq: "play st (Some m) = play_turns (nat m) st"
    using play_loop_bounded [of "nat m" 0 st] by (simp add: play_def)
  {
    fix h env
    assume "play st (Some m) = Some (Inr (h, env))"
    with eq have "play_turns (nat m) (fst st, snd st) = Some (Inr (h, env))" by simp
    then show "length (history h) = length (history (fst st)) + nat m"
      by (rule play_turns_history)
  }
  assume "computers_ready st"
  from play_turns_computers [OF this, of "nat m"] eq
  show "\<exists>st'. play st (Some m) = Some (Inr st')" by auto
next
  fix st'
  show "play st None \<noteq> Some (Inr st')"
    using play_loop_no_break [of None 0 st "Inr st'"] by (auto simp: play_def)
qed

theorem play_bounded_witness:
  "(0::int) < 2 \<and> play scripted (Some 2) = play_turns (nat 2) scripted \<and>
   (case play_turns (nat 2) scripted of Some (Inr st) \<Rightarrow> True | _ \<Rightarrow> False) \<and>
   computers_ready two_computers \<and> (\<exists>st'. play two_computers (Some 2) = Some (Inr st')) \<and>
   (\<forall>st'. play scripted None \<noteq> Some (Inr st'))"
proof -
  have z: "(0::int) < 2" by simp
  from play_bounded [of 2 scripted] z
  have 1: "play scripted (Some 2) = play_turns (nat 2) scripted"
    and 2: "\<forall>st'. play scripted None \<noteq> Some (Inr st')"
    by blast+
  from play_bounded [of 2 two_computers] z computers_ready_two_computers
  have 3: "\<exists>st'. play two_computers (Some 2) = Some (Inr st')"
    by blast
  from scripted_two_turns
  have 4: "case play_turns (nat 2) scripted of Some (Inr st) \<Rightarrow> True | _ \<Rightarrow> False"
    by simp
  from z 1 2 3 4 computers_ready_two_computers show ?thesis by blast
qed

text \<open>
  The claim C6 as it was stated covers every integer and every pair of players. With 0
  the counter is 1 after the first turn and never equal to it: between two automated
  players the match has no end. With 1 and a human player whose input stays silent, or
  never is a selection, the first turn never returns.
\<close>

theorem play_does_not_terminate:
  "play two_computers (Some 0) = None \<and> play silent (Some 1) = None \<and>
   play endless_lizard (Some 1) = None"
  using play_loop_diverges [OF computers_ready_two_computers, of "Some 0" 0]
    play_loop_stuck [OF play_turn_silent, of "Some 1" 0]
    play_loop_stuck [OF play_turn_endless_lizard, of "Some 1" 0]
  by (simp add: play_def)

lemma count_list_filter: "count_list xs x = length (filter (\<lambda>v. v = x) xs)"
  by (induction xs) auto

lemma double_range: "(1::rat) < 2 ^ 1024 - 2 ^ 970"
  by simp

lemma nearest_double_0: "nearest_double 0 = 0"
  by (simp add: nearest_double_def)

lemma bit_length_bounds:
  "0 < n \<Longrightarrow> 2 ^ (bit_length n - 1) \<le> n \<and> n < 2 ^ bit_length n"
proof (induction n rule: bit_length.induct)
  case (1 n)
  show ?case
  proof (cases "n div 2 = 0")
    case True
    with 1(2) have "n = 1" by (simp add: div_eq_0_iff)
    then show ?thesis by (subst (1 2) bit_length.simps) (simp add: bit_length.simps)
  next
    case False
    with 1 have IH: "2 ^ (bit_length (n div 2) - 1) \<le> n div 2"
      "n div 2 < 2 ^ bit_length (n div 2)" by auto
    from False have pos: "0 < bit_length (n div 2)"
      by (subst bit_length.simps) simp
    have b: "bit_length n = Suc (bit_length (n div 2))"
      using 1(2) by (subst bit_length.simps) simp
    have "2 ^ (bit_length n - 1) = 2 * 2 ^ (bit_length (n div 2) - 1)"
      using pos by (simp add: b power_Suc [symmetric] del: power_Suc)
    also have "\<dots> \<le> 2 * (n div 2)" using IH(1) by simp
    also have "\<dots> \<le> n" by simp
    finally have lo: "2 ^ (bit_length n - 1) \<le> n" .
    have "n < 2 * (n div 2) + 2" by presburger
    also have "\<dots> \<le> 2 * 2 ^ bit_length (n div 2)" using IH(2) by simp
    finally have "n < 2 ^ bit_length n" by (simp add: b)
    with lo show ?thesis by simp
  qed
qed

lemma pow2_powi: "pow2 k = 2 powi k"
  by (simp add: pow2_def power_int_def inverse_eq_divide power_one_over)

lemma pow2_pos: "0 < pow2 k"
  by (simp add: pow2_powi)

lemma pow2_Suc: "pow2 (k + 1) = 2 * pow2 k"
  by (simp add: pow2_powi power_int_add)

lemma pow2_diff: "pow2 (int a - int b) = 2 ^ a / 2 ^ b"
  by (simp add: pow2_powi power_int_diff)

lemma ilog2_bounds:
  assumes "0 < q"
  shows "pow2 (ilog2 q) \<le> q \<and> q < pow2 (ilog2 q + 1)"
proof -
  obtain a b where ab: "quotient_of q = (a, b)" by (cases "quotient_of q")
  then have b: "0 < b" and q: "q = of_int a / of_int b"
    by (simp_all add: quotient_of_denom_pos quotient_of_div)
  from assms b q have a: "0 < a" by (simp add: zero_less_divide_iff)
  define la lb where "la = bit_length (nat a)" and "lb = bit_length (nat b)"
  from bit_length_bounds [of "nat a"] a
  have A: "2 ^ (la - 1) \<le> nat a" "nat a < 2 ^ la" by (simp_all add: la_def)
  from bit_length_bounds [of "nat b"] b
  have B: "2 ^ (lb - 1) \<le> nat b" "nat b < 2 ^ lb" by (simp_all add: lb_def)
  have la: "0 < la" using A(2) a by (cases la) auto
  have lb: "0 < lb" using B(2) b by (cases lb) auto
  have qa: "q = of_nat (nat a) / of_nat (nat b)" using a b q by simp
  have "of_nat (nat a) < (2::rat) ^ la" using A(2) by (metis of_nat_less_iff of_nat_numeral of_nat_power)
  moreover have "(2::rat) ^ (lb - 1) \<le> of_nat (nat b)" using B(1) by (metis of_nat_le_iff of_nat_numeral of_nat_power)
  moreover have "(0::rat) < of_nat (nat b)" using b by simp
  moreover have "(0::rat) \<le> of_nat (nat a)" by simp
  moreover have "(0::rat) < 2 ^ (lb - 1)" by simp
  ultimately have "q < 2 ^ la / 2 ^ (lb - 1)"
    unfolding qa by (intro frac_less)
  also have "\<dots> = pow2 (int la - int lb + 1)"
  proof -
    have "int la - int lb + 1 = int la - int (lb - 1)" using lb by simp
    then show ?thesis by (simp only: pow2_diff)
  qed
  finally have up: "q < pow2 (int la - int lb + 1)" .
  have "(2::rat) ^ (la - 1) \<le> of_nat (nat a)" using A(1) by (metis of_nat_le_iff of_nat_numeral of_nat_power)
  moreover have "of_nat (nat b) < (2::rat) ^ lb" using B(2) by (metis of_nat_less_iff of_nat_numeral of_nat_power)
  ultimately have "2 ^ (la - 1) / 2 ^ lb \<le> q"
    unfolding qa using \<open>(0::rat) < of_nat (nat b)\<close> by (intro frac_le) auto
  moreover have "2 ^ (la - 1) / 2 ^ lb = pow2 (int la - int lb - 1)"
  proof -
    have "int la - int lb - 1 = int (la - 1) - int lb" using la by simp
    then show ?thesis by (simp only: pow2_diff)
  qed
  ultimately have lo: "pow2 (int la - int lb - 1) \<le> q" by simp
  have il: "ilog2 q = (if pow2 (int la - int lb) \<le> q then int la - int lb else int la - int lb - 1)"
    by (simp add: ilog2_def ab la_def lb_def Let_def)
  show ?thesis
  proof (cases "pow2 (int la - int lb) \<le> q")
    case True
    with il up show ?thesis by simp
  next
    case False
    with il lo show ?thesis by simp
  qed
qed

lemma round_half_even_error: "\<bar>of_int (round_half_even x) - x\<bar> \<le> 1 / 2"
proof -
  have "of_int \<lfloor>x\<rfloor> \<le> x" "x < of_int \<lfloor>x\<rfloor> + 1" by linarith+
  then show ?thesis
    by (auto simp: round_half_even_def Let_def abs_le_iff)
qed

lemma nearest_double_error:
  assumes "0 \<le> q"
  shows "\<bar>nearest_double q - q\<bar> \<le> max (q / 2 ^ 53) (1 / 2 ^ 1075)"
proof (cases "q = 0")
  case True
  then show ?thesis by (simp add: nearest_double_def)
next
  case False
  with assms have q: "0 < q" by simp
  define e where "e = max (ilog2 q - 52) (- 1074)"
  have nd: "nearest_double q = of_int (round_half_even (q / pow2 e)) * pow2 e"
    using False by (simp add: nearest_double_def e_def Let_def)
  have "\<bar>nearest_double q - q\<bar> = \<bar>of_int (round_half_even (q / pow2 e)) - q / pow2 e\<bar> * pow2 e"
  proof -
    have "nearest_double q - q = (of_int (round_half_even (q / pow2 e)) - q / pow2 e) * pow2 e"
      using pow2_pos [of e] by (simp add: nd field_simps)
    then show ?thesis using pow2_pos [of e] by (simp add: abs_mult)
  qed
  also have "\<dots> \<le> 1 / 2 * pow2 e"
    using round_half_even_error [of "q / pow2 e"] pow2_pos [of e]
    by (intro mult_right_mono) auto
  finally have err: "\<bar>nearest_double q - q\<bar> \<le> pow2 e / 2" by simp
  show ?thesis
  proof (cases "- 1074 \<le> ilog2 q - 52")
    case True
    then have "e = ilog2 q - 52" by (simp add: e_def)
    then have "pow2 e = pow2 (ilog2 q) / 2 ^ 52"
      by (simp add: pow2_powi power_int_diff)
    also have "\<dots> \<le> q / 2 ^ 52" using ilog2_bounds [OF q] by (simp add: divide_right_mono)
    finally have "pow2 e / 2 \<le> q / 2 ^ 52 / 2" by (rule divide_right_mono) simp
    also have "q / 2 ^ 52 / 2 = q / 2 ^ 53" by simp
    finally have "pow2 e / 2 \<le> q / 2 ^ 53" .
    with err have "\<bar>nearest_double q - q\<bar> \<le> q / 2 ^ 53" by (rule order_trans)
    then show ?thesis by (rule max.coboundedI1)
  next
    case False
    then have "e = - 1074" by (simp add: e_def)
    then have "pow2 e / 2 = 1 / 2 ^ 1075" by (simp add: pow2_def)
    with err have "\<bar>nearest_double q - q\<bar> \<le> 1 / 2 ^ 1075" by (simp only:)
    then show ?thesis by (rule max.coboundedI2)
  qed
qed

lemma truediv_part:
  assumes "0 < b" and "a \<le> b"
  shows "truediv a b = Inr (nearest_double (of_nat a / of_nat b))"
proof -
  from assms have "(of_nat a / of_nat b :: rat) \<le> 1" by simp
  with double_range have "\<not> 2 ^ 1024 - 2 ^ 970 \<le> (of_nat a / of_nat b :: rat)"
    by linarith
  with assms(1) show ?thesis by (simp add: truediv_def)
qed

lemma count_list_counts:
  "count_list row 1 = winCount row" "count_list row (- 1) = loseCount row"
  by (simp_all add: winCount_def loseCount_def count_list_filter)

lemma row_weight_unfold:
  "row_weight row =
     (if winCount row + loseCount row = 0 then Inr 0
      else truediv (winCount row) (winCount row + loseCount row))"
  by (simp add: row_weight_def Let_def count_list_counts)

lemma row_weight_truediv:
  assumes "winCount row + loseCount row \<noteq> 0"
  shows "row_weight row = truediv (winCount row) (winCount row + loseCount row)"
  by (simp only: row_weight_unfold assms if_False)

lemma row_weight_counts:
  "row_weight row =
     Inr (if winCount row + loseCount row = 0 then 0
          else nearest_double (of_nat (winCount row) / of_nat (winCount row + loseCount row)))"
proof (cases "winCount row + loseCount row = 0")
  case True
  then show ?thesis by (simp add: row_weight_unfold)
next
  case False
  then have "0 < winCount row + loseCount row" by simp
  from truediv_part [OF this, of "winCount row"]
  have "truediv (winCount row) (winCount row + loseCount row) =
      Inr (nearest_double (of_nat (winCount row) / of_nat (winCount row + loseCount row)))"
    by simp
  with False show ?thesis by (simp only: row_weight_unfold if_False)
qed

lemma row_weight_all_lose:
  assumes "\<forall>v\<in>set row. v = - 1"
  shows "row_weight row = Inr 0"
proof -
  from assms have "filter (\<lambda>v. v = 1) row = []"
    by (auto simp: filter_empty_conv)
  then have "winCount row = 0" by (simp add: winCount_def)
  then show ?thesis by (simp add: row_weight_counts nearest_double_0)
qed

lemma weights_loop_map:
  assumes "\<forall>r\<in>set rows. row_weight r = Inr (f r)"
  shows "weights_loop rows acc = Inr (acc @ map f rows)"
  using assms by (induction rows arbitrary: acc) (simp_all add: and_then_def)

text \<open>
  Claim C7. The weighted strategy computes one weight for each row of the matrix, and
  the computation does not fail. The weight of row \<open>i\<close> is \<open>winCount / (winCount +
  loseCount)\<close> of that row, ties left out of the denominator, the division being the one
  of the code, which yields the double nearest to the quotient, so the weight and the
  quotient differ by no more than a part in \<open>2^53\<close> of the quotient (or by \<open>2^-1075\<close>, for
  a quotient below the smallest normal double); it is 0 when both counts are zero. A row
  whose entries are all -1 has the weight 0, exactly.
\<close>
theorem weighted_strategy_weights:
  "\<exists>ws. selections_weights g = Inr ws \<and>
     length ws = length (relations (selection_set g)) \<and>
     (\<forall>i<length (relations (selection_set g)).
        ws ! i =
          (if winCount (relations (selection_set g) ! i) +
              loseCount (relations (selection_set g) ! i) = 0 then 0
           else nearest_double
                  (of_nat (winCount (relations (selection_set g) ! i)) /
                   of_nat (winCount (relations (selection_set g) ! i) +
                           loseCount (relations (selection_set g) ! i)))) \<and>
        (winCount (relations (selection_set g) ! i) +
           loseCount (relations (selection_set g) ! i) \<noteq> 0 \<longrightarrow>
         truediv (winCount (relations (selection_set g) ! i))
           (winCount (relations (selection_set g) ! i) +
            loseCount (relations (selection_set g) ! i)) = Inr (ws ! i) \<and>
         \<bar>ws ! i - of_nat (winCount (relations (selection_set g) ! i)) /
                   of_nat (winCount (relations (selection_set g) ! i) +
                           loseCount (relations (selection_set g) ! i))\<bar>
           \<le> max (of_nat (winCount (relations (selection_set g) ! i)) /
                    of_nat (winCount (relations (selection_set g) ! i) +
                            loseCount (relations (selection_set g) ! i)) / 2 ^ 53)
                   (1 / 2 ^ 1075)) \<and>
        ((\<forall>v\<in>set (relations (selection_set g) ! i). v = - 1) \<longrightarrow> ws ! i = 0))"
proof -
  define f where "f row =
     (if winCount row + loseCount row = 0 then 0
      else nearest_double (of_nat (winCount row) / of_nat (winCount row + loseCount row)))"
    for row
  have rw: "row_weight row = Inr (f row)" for row
    by (simp add: f_def row_weight_counts)
  let ?rel = "relations (selection_set g)"
  have w: "selections_weights g = Inr (map f ?rel)"
    using weights_loop_map [of ?rel f "[]"] rw by (simp add: selections_weights_def)
  have all: "\<forall>i<length ?rel.
        map f ?rel ! i =
          (if winCount (?rel ! i) + loseCount (?rel ! i) = 0 then 0
           else nearest_double
                  (of_nat (winCount (?rel ! i)) /
                   of_nat (winCount (?rel ! i) + loseCount (?rel ! i)))) \<and>
        (winCount (?rel ! i) + loseCount (?rel ! i) \<noteq> 0 \<longrightarrow>
         truediv (winCount (?rel ! i)) (winCount (?rel ! i) + loseCount (?rel ! i)) =
           Inr (map f ?rel ! i) \<and>
         \<bar>map f ?rel ! i - of_nat (winCount (?rel ! i)) /
                   of_nat (winCount (?rel ! i) + loseCount (?rel ! i))\<bar>
           \<le> max (of_nat (winCount (?rel ! i)) /
                    of_nat (winCount (?rel ! i) + loseCount (?rel ! i)) / 2 ^ 53)
                   (1 / 2 ^ 1075)) \<and>
        ((\<forall>v\<in>set (?rel ! i). v = - 1) \<longrightarrow> map f ?rel ! i = 0)"
  proof (intro allI impI conjI)
    fix i
    assume i: "i < length ?rel"
    then have m: "map f ?rel ! i = f (?rel ! i)" by simp
    show "map f ?rel ! i =
          (if winCount (?rel ! i) + loseCount (?rel ! i) = 0 then 0
           else nearest_double
                  (of_nat (winCount (?rel ! i)) /
                   of_nat (winCount (?rel ! i) + loseCount (?rel ! i))))"
      by (simp only: m f_def)
    {
      assume ne: "winCount (?rel ! i) + loseCount (?rel ! i) \<noteq> 0"
      from row_weight_truediv [OF this] rw [of "?rel ! i"]
      show "truediv (winCount (?rel ! i)) (winCount (?rel ! i) + loseCount (?rel ! i)) =
           Inr (map f ?rel ! i)"
        by (simp only: m)
      let ?q = "of_nat (winCount (?rel ! i)) /
                of_nat (winCount (?rel ! i) + loseCount (?rel ! i)) :: rat"
      have "0 \<le> ?q" by simp
      from nearest_double_error [OF this] ne
      show "\<bar>map f ?rel ! i - ?q\<bar> \<le> max (?q / 2 ^ 53) (1 / 2 ^ 1075)"
        by (simp only: m f_def if_False)
    }
    assume "\<forall>v\<in>set (?rel ! i). v = - 1"
    from row_weight_all_lose [OF this] rw [of "?rel ! i"]
    show "map f ?rel ! i = 0" by (simp only: m) simp
  qed
  have len: "length (map f ?rel) = length ?rel" by simp
  from w len all show ?thesis by blast
qed

lemma nearest_double_thirds:
  "nearest_double (1 / 3) = 6004799503160661 / 18014398509481984"
  "nearest_double (2 / 3) = 6004799503160661 / 9007199254740992"
  by code_simp+

theorem weighted_strategy_weights_witness:
  "(\<exists>ws. selections_weights thirds = Inr ws \<and> length ws = 3 \<and>
      ws ! 0 = 6004799503160661 / 18014398509481984 \<and> ws ! 1 = 0 \<and>
      ws ! 2 = 6004799503160661 / 9007199254740992 \<and>
      truediv 1 3 = Inr (ws ! 0)) \<and>
   (\<exists>ws. selections_weights always_loses = Inr ws \<and> ws ! 0 = 0)"
proof -
  have lose: "\<exists>ws. selections_weights always_loses = Inr ws \<and> ws ! 0 = 0"
  proof -
    have "0 < length (relations (selection_set always_loses))"
      "\<forall>v\<in>set (relations (selection_set always_loses) ! 0). v = - 1"
      by (simp_all add: always_loses_def)
    with weighted_strategy_weights [of always_loses] show ?thesis by blast
  qed
  let ?R = "relations (selection_set thirds)"
  have r: "?R = [[1, - 1, - 1], [0, 0, 0], [1, 1, - 1]]"
    by (simp add: thirds_def)
  have c: "winCount (?R ! 0) = 1" "loseCount (?R ! 0) = 2"
    "winCount (?R ! 1) = 0" "loseCount (?R ! 1) = 0"
    "winCount (?R ! 2) = 2" "loseCount (?R ! 2) = 1"
    by (simp_all add: r winCount_def loseCount_def)
  have t: "(1::nat) + 2 = 3" "(2::nat) + 1 = 3" by simp_all
  from weighted_strategy_weights [of thirds] obtain ws where
    ws: "selections_weights thirds = Inr ws" and len: "length ws = length ?R"
    and all: "\<forall>i<length ?R.
        ws ! i =
          (if winCount (?R ! i) + loseCount (?R ! i) = 0 then 0
           else nearest_double
                  (of_nat (winCount (?R ! i)) /
                   of_nat (winCount (?R ! i) + loseCount (?R ! i)))) \<and>
        (winCount (?R ! i) + loseCount (?R ! i) \<noteq> 0 \<longrightarrow>
         truediv (winCount (?R ! i)) (winCount (?R ! i) + loseCount (?R ! i)) =
           Inr (ws ! i) \<and>
         \<bar>ws ! i - of_nat (winCount (?R ! i)) /
                   of_nat (winCount (?R ! i) + loseCount (?R ! i))\<bar>
           \<le> max (of_nat (winCount (?R ! i)) /
                    of_nat (winCount (?R ! i) + loseCount (?R ! i)) / 2 ^ 53)
                   (1 / 2 ^ 1075)) \<and>
        ((\<forall>v\<in>set (?R ! i). v = - 1) \<longrightarrow> ws ! i = 0)"
    by blast
  have l: "length ?R = 3" by (simp add: r)
  have i: "0 < length ?R" "1 < length ?R" "2 < length ?R" by (simp_all add: l)
  from all i(1) have "ws ! 0 =
          (if winCount (?R ! 0) + loseCount (?R ! 0) = 0 then 0
           else nearest_double
                  (of_nat (winCount (?R ! 0)) /
                   of_nat (winCount (?R ! 0) + loseCount (?R ! 0))))"
    and "winCount (?R ! 0) + loseCount (?R ! 0) \<noteq> 0 \<longrightarrow>
         truediv (winCount (?R ! 0)) (winCount (?R ! 0) + loseCount (?R ! 0)) =
           Inr (ws ! 0)"
    by blast+
  then have "ws ! 0 = (if (3::nat) = 0 then 0 else nearest_double (of_nat 1 / of_nat 3))"
    and "(3::nat) \<noteq> 0 \<longrightarrow> truediv 1 3 = Inr (ws ! 0)"
    unfolding c t by blast+
  then have 0: "ws ! 0 = 6004799503160661 / 18014398509481984" "truediv 1 3 = Inr (ws ! 0)"
    by (simp_all add: nearest_double_thirds)
  from all i(2) have "ws ! 1 =
          (if winCount (?R ! 1) + loseCount (?R ! 1) = 0 then 0
           else nearest_double
                  (of_nat (winCount (?R ! 1)) /
                   of_nat (winCount (?R ! 1) + loseCount (?R ! 1))))"
    by blast
  then have 1: "ws ! 1 = 0" unfolding c by simp
  from all i(3) have "ws ! 2 =
          (if winCount (?R ! 2) + loseCount (?R ! 2) = 0 then 0
           else nearest_double
                  (of_nat (winCount (?R ! 2)) /
                   of_nat (winCount (?R ! 2) + loseCount (?R ! 2))))"
    by blast
  then have "ws ! 2 = (if (3::nat) = 0 then 0 else nearest_double (of_nat 2 / of_nat 3))"
    unfolding c t by blast
  then have 2: "ws ! 2 = 6004799503160661 / 9007199254740992"
    by (simp add: nearest_double_thirds)
  from ws len l 0 1 2 have "\<exists>ws. selections_weights thirds = Inr ws \<and> length ws = 3 \<and>
      ws ! 0 = 6004799503160661 / 18014398509481984 \<and> ws ! 1 = 0 \<and>
      ws ! 2 = 6004799503160661 / 9007199254740992 \<and>
      truediv 1 3 = Inr (ws ! 0)"
    by simp
  with lose show ?thesis by simp
qed

text \<open>
  Claim C8. \<^verbatim>\<open>observe\<close> appends exactly one record, with the four values it was given,
  to the player's history. The values are not looked at (they are any strings and any
  results), the call has no error to return, the records appended before are unchanged,
  and so are the player's name and kind.
\<close>
theorem observe_appends:
  "player_history (observe p pm om pr or') =
     player_history p @ [\<lparr>player_move = pm, opponent_move = om, player_result = pr,
                          opponent_result = or'\<rparr>] \<and>
   take (length (player_history p)) (player_history (observe p pm om pr or')) =
     player_history p \<and>
   player_name (observe p pm om pr or') = player_name p \<and>
   kind (observe p pm om pr or') = kind p"
  by (simp add: observe_def)

text \<open>
  Claim C9. \<^verbatim>\<open>get_current_result\<close> returns, and leaves the handler as it was; a second
  call with no turn between the two returns the same mapping and again leaves the handler
  as it was.
\<close>
theorem get_current_result_idempotent:
  "\<exists>m. get_current_result h = Inr (m, h) \<and>
       (\<forall>m1 h1 m2 h2. get_current_result h = Inr (m1, h1) \<longrightarrow>
          get_current_result h1 = Inr (m2, h2) \<longrightarrow> m2 = m1 \<and> h1 = h \<and> h2 = h)"
proof -
  from get_current_result_tally [of h] obtain m where m: "get_current_result h = Inr (m, h)"
    by blast
  then show ?thesis by auto
qed

theorem get_current_result_idempotent_witness:
  "\<exists>m. get_current_result (fst scripted) = Inr (m, fst scripted) \<and>
       (\<forall>m2 h2. get_current_result (fst scripted) = Inr (m2, h2) \<longrightarrow>
          m2 = m \<and> h2 = fst scripted)"
  using get_current_result_idempotent [of "fst scripted"] by auto

text \<open>
  Claim C10. On a new GameHandler, whose history is empty, \<^verbatim>\<open>get_current_result\<close>
  returns a mapping with an entry for player1 and one for player2, in each of which the
  counts of WIN, TIE and LOSE are 0.
\<close>
theorem get_current_result_fresh:
  "get_current_result (GameHandler_init g p1 p2) =
     Inr ([''player1'' \<mapsto> [WIN \<mapsto> 0, TIE \<mapsto> 0, LOSE \<mapsto> 0],
           ''player2'' \<mapsto> [WIN \<mapsto> 0, TIE \<mapsto> 0, LOSE \<mapsto> 0]],
          GameHandler_init g p1 p2) \<and>
   history (GameHandler_init g p1 p2) = []"
  by (simp add: get_current_result_def GameHandler_init_def and_then_def tmp_dct_def)

end
